theory Spec2Isabelle
  imports Main "HOL-Library.Word"
begin

unbundle bit_operations_syntax

section \<open>The SSD1306 framebuffer driver (fb_ssd1306.c)\<close>

text \<open>
  A shallow embedding of the five driver callbacks of \<^verbatim>\<open>fb_ssd1306.c\<close>:
  \<^verbatim>\<open>init_display\<close>, \<^verbatim>\<open>set_addr_win\<close>, \<^verbatim>\<open>blank\<close>, \<^verbatim>\<open>set_gamma\<close> and
  \<^verbatim>\<open>write_vmem\<close>. Each callback takes the driver state \<^verbatim>\<open>par\<close> and returns
  it updated; C integers are machine words of their declared width.
\<close>

subsection \<open>Data model\<close>

type_synonym u8 = "8 word"
type_synonym u16 = "16 word"
type_synonym u32 = "32 word"
type_synonym s32 = "32 word"  \<comment> \<open>a C \<^verbatim>\<open>int\<close>: the same 32 bits, read with \<open>sint\<close>\<close>

text \<open>
  One transaction on the bus. \<open>Cmd v\<close> is one call \<^verbatim>\<open>write_reg(par, v)\<close>: a single
  value sent with the D/C line low; the value is recorded as the C expression
  passes it. \<open>Data bs\<close> is one call of \<^verbatim>\<open>fbtftops.write\<close> with the D/C line
  high, carrying the bytes \<open>bs\<close>.
\<close>

datatype transaction = Cmd u32 | Data "u8 list"

text \<open>
  Modelled from the spec: the bus transport (\<^verbatim>\<open>fbtftops.write\<close> and the
  \<^verbatim>\<open>write_reg\<close> macro of \<^verbatim>\<open>fbtft.h\<close>) is not part of this file. The spec gives
  it as \<^verbatim>\<open>send(bytes, phase) -> Result<(), BusError>\<close>. Here \<open>issued\<close> lists
  every transaction the driver has attempted, oldest first, and \<open>outcome k\<close>
  is the C return value of the \<open>k\<close>-th attempt (negative: the write failed).
\<close>

record bus =
  issued :: "transaction list"
  outcome :: "nat \<Rightarrow> int"

definition bus_write :: "transaction \<Rightarrow> bus \<Rightarrow> int \<times> bus" where
  "bus_write t b = (outcome b (length (issued b)), b\<lparr>issued := issued b @ [t]\<rparr>)"

text \<open>
  The fields of \<^verbatim>\<open>struct fbtft_par\<close> that the driver touches:
  \<^verbatim>\<open>info->var.xres\<close>, \<^verbatim>\<open>info->var.yres\<close> (both \<^verbatim>\<open>u32\<close>), \<^verbatim>\<open>pdata->rotate\<close>
  (unsigned), \<^verbatim>\<open>gamma.curves\<close> (an array of \<^verbatim>\<open>u32\<close> inside the struct, so
  index 0 always exists: a function from the index), \<^verbatim>\<open>info->screen_buffer\<close>
  read as 16-bit samples, \<^verbatim>\<open>txbuf.buf\<close>, the bus, and the number of times
  the \<^verbatim>\<open>fbtftops.reset\<close> callback has run.
\<close>

record par =
  xres :: u32
  yres :: u32
  rotate :: u32
  gamma_curves :: "nat \<Rightarrow> u32"
  screen_buffer :: "u16 list"
  txbuf :: "u8 list"
  bus :: bus
  resets :: nat

datatype error = OutOfBounds

subsection \<open>Register writes\<close>

text \<open>
  \<^verbatim>\<open>write_reg(par, v)\<close> is used as a statement everywhere in the driver: whatever
  the transport returns is dropped.
\<close>

definition write_reg :: "par \<Rightarrow> u32 \<Rightarrow> par" where
  "write_reg p v = p\<lparr>bus := snd (bus_write (Cmd v) (bus p))\<rparr>"

definition reset :: "par \<Rightarrow> par" where
  "reset p = p\<lparr>resets := resets p + 1\<rparr>"

subsection \<open>init_display\<close>

text \<open>
  \<^verbatim>\<open>init_display\<close> runs the reset callback, fills in the default contrast when
  \<^verbatim>\<open>gamma.curves[0]\<close> is 0 (the mutex taken around the store has no effect on
  a single thread of control), sends the configuration one value per
  \<^verbatim>\<open>write_reg\<close>, and ends in \<^verbatim>\<open>return 0\<close>.
\<close>

definition init_display :: "par \<Rightarrow> int \<times> par" where
  "init_display par0 =
    (let par = reset par0;
         par = (if gamma_curves par 0 = 0
                then (if yres par = 64
                      then par\<lparr>gamma_curves := (gamma_curves par)(0 := 0xCF)\<rparr>
                      else par\<lparr>gamma_curves := (gamma_curves par)(0 := 0x8F)\<rparr>)
                else par);
         par = write_reg par 0xAE;
         par = write_reg par 0xD5;
         par = write_reg par 0x80;
         par = write_reg par 0xA8;
         par = write_reg par (yres par - 1);
         par = write_reg par 0xD3;
         par = write_reg par 0x0;
         par = write_reg par (0x40 OR 0x0);
         par = write_reg par 0x8D;
         par = write_reg par 0x14;
         par = (if rotate par \<ge> 180 then write_reg par 0xA1 else write_reg par 0xA0);
         par = (if rotate par \<ge> 180 then write_reg par 0xC8 else write_reg par 0xC0);
         par = write_reg par 0xDA;
         par = (if yres par = 64 then write_reg par 0x12
                else if yres par = 48 then write_reg par 0x12
                else write_reg par 0x02);
         par = write_reg par 0x20;
         par = write_reg par 0x01;
         par = write_reg par 0xD9;
         par = write_reg par 0xF1;
         par = write_reg par 0xDB;
         par = write_reg par 0x40;
         par = write_reg par 0xA4;
         par = write_reg par 0xA6;
         par = write_reg par 0xAF
     in (0, par))"

text \<open>The values \<^verbatim>\<open>init_display\<close> passes to \<^verbatim>\<open>write_reg\<close>, in program order.\<close>

definition init_commands :: "par \<Rightarrow> transaction list" where
  "init_commands par =
    [Cmd 0xAE, Cmd 0xD5, Cmd 0x80, Cmd 0xA8, Cmd (yres par - 1), Cmd 0xD3, Cmd 0x00,
     Cmd 0x40, Cmd 0x8D, Cmd 0x14,
     Cmd (if rotate par \<ge> 180 then 0xA1 else 0xA0),
     Cmd (if rotate par \<ge> 180 then 0xC8 else 0xC0),
     Cmd 0xDA, Cmd (if yres par = 64 \<or> yres par = 48 then 0x12 else 0x02),
     Cmd 0x20, Cmd 0x01, Cmd 0xD9, Cmd 0xF1, Cmd 0xDB, Cmd 0x40, Cmd 0xA4, Cmd 0xA6,
     Cmd 0xAF]"

subsection \<open>set_addr_win\<close>

definition set_addr_win_64x48 :: "par \<Rightarrow> par" where
  "set_addr_win_64x48 par0 =
    (let par = write_reg par0 0x21;
         par = write_reg par 0x20;
         par = write_reg par 0x5F;
         par = write_reg par 0x22;
         par = write_reg par 0x0;
         par = write_reg par 0x5
     in par)"

definition set_addr_win_top_left :: "par \<Rightarrow> par" where
  "set_addr_win_top_left par0 =
    (let par = write_reg par0 0x21;
         par = write_reg par 0x00;
         par = write_reg par (xres par - 1);
         par = write_reg par 0x22;
         par = write_reg par 0x0;
         par = write_reg par (yres par div 8 - 1)
     in par)"

text \<open>The four coordinates are C \<^verbatim>\<open>int\<close>s; the body never reads them.\<close>

definition set_addr_win :: "par \<Rightarrow> s32 \<Rightarrow> s32 \<Rightarrow> s32 \<Rightarrow> s32 \<Rightarrow> par" where
  "set_addr_win par xs ys xe ye =
    (if xres par = 64 \<and> yres par = 48
     then set_addr_win_64x48 par
     else set_addr_win_top_left par)"

subsection \<open>blank\<close>

definition blank :: "par \<Rightarrow> bool \<Rightarrow> int \<times> par" where
  "blank par on =
    (let par = (if on then write_reg par 0xAE else write_reg par 0xAF)
     in (0, par))"

subsection \<open>set_gamma\<close>

text \<open>
  \<^verbatim>\<open>set_gamma(par, curves)\<close> receives a pointer to the caller's array and
  writes through it; the model returns the array as the call leaves it.
\<close>

definition set_gamma :: "par \<Rightarrow> (nat \<Rightarrow> u32) \<Rightarrow> int \<times> par \<times> (nat \<Rightarrow> u32)" where
  "set_gamma par0 curves0 =
    (let curves = curves0(0 := curves0 0 AND 0xFF);
         par = write_reg par0 0x81;
         par = write_reg par (curves 0)
     in (0, par, curves))"

subsection \<open>write_vmem\<close>

text \<open>
  The three nested loops of \<^verbatim>\<open>write_vmem\<close>. The counters \<^verbatim>\<open>x\<close>, \<^verbatim>\<open>y\<close>, \<^verbatim>\<open>i\<close> are
  C \<^verbatim>\<open>int\<close>s; \<^verbatim>\<open>x < xres\<close> and \<^verbatim>\<open>y < yres / 8\<close> compare against a \<^verbatim>\<open>u32\<close> and
  are therefore unsigned comparisons, \<^verbatim>\<open>i < 8\<close> is a signed one, and the
  index \<^verbatim>\<open>(y * 8 + i) * xres + x\<close> is computed modulo \<open>2 ^ 32\<close>. \<^verbatim>\<open>buf\<close> is the
  write position in \<^verbatim>\<open>txbuf\<close>, counted in bytes from its start. In
  \<^verbatim>\<open>*buf |= (... ? 1 : 0) << i\<close> the shift is at most 7, so the \<^verbatim>\<open>int\<close> operand
  fits a byte and the OR is taken on bytes. A read or a
  write outside either buffer is undefined in C and is the error
  \<open>OutOfBounds\<close> here.
\<close>

lemma sint_succ_lt8: "i <s 8 \<Longrightarrow> sint (i + 1) = sint i + 1" for i :: "32 word"
proof -
  assume a: "i <s 8"
  then have u: "sint i < 8" by (simp add: word_sless_alt)
  have l: "- (2 ^ 31) \<le> sint i" using sint_ge [of i] by simp
  have "sint (i + 1) = signed_take_bit 31 (sint i + 1)"
    by (simp add: sint_word_ariths)
  also have "\<dots> = sint i + 1"
    using u l by (intro signed_take_bit_int_eq_self) simp_all
  finally show ?thesis .
qed

lemma unat_succ_lt: "x < k \<Longrightarrow> unat (x + 1) = unat x + 1" for x :: "32 word"
proof -
  assume "x < k"
  then have "unat x < unat k" by (simp add: word_less_nat_alt)
  moreover have "unat k < 2 ^ 32" using unsigned_less [of k] by simp
  ultimately have "unat x + unat (1 :: 32 word) < 2 ^ LENGTH(32)" by simp
  then have "unat (x + 1) = unat x + unat (1 :: 32 word)" by (simp only: unat_add_lem)
  then show ?thesis by simp
qed

function bits_loop :: "u16 list \<Rightarrow> u32 \<Rightarrow> s32 \<Rightarrow> s32 \<Rightarrow> s32 \<Rightarrow> u8 list \<Rightarrow> nat \<Rightarrow> error + u8 list" where
  "bits_loop vmem16 xr x y i txb buf =
    (if i <s 8 then
       (let idx = (y * 8 + i) * xr + x in
        if unat idx < length vmem16 \<and> buf < length txb then
          bits_loop vmem16 xr x y (i + 1)
            (txb[buf := txb ! buf OR push_bit (unat i) (if vmem16 ! unat idx \<noteq> 0 then 1 else 0)])
            buf
        else Inl OutOfBounds)
     else Inr txb)"
  by pat_completeness auto
termination bits_loop
  by (relation "measure (\<lambda>(vm, xr, x, y, i, txb, buf). nat (8 - sint i))")
     (auto simp: sint_succ_lt8 word_sless_alt)

function pages_loop :: "u16 list \<Rightarrow> u32 \<Rightarrow> u32 \<Rightarrow> s32 \<Rightarrow> s32 \<Rightarrow> u8 list \<Rightarrow> nat \<Rightarrow> error + (u8 list \<times> nat)" where
  "pages_loop vmem16 xr yr x y txb buf =
    (if y < yr div 8 then
       (if buf < length txb then
          (case bits_loop vmem16 xr x y 0 (txb[buf := 0x00]) buf of
             Inl e \<Rightarrow> Inl e
           | Inr txb' \<Rightarrow> pages_loop vmem16 xr yr x (y + 1) txb' (buf + 1))
        else Inl OutOfBounds)
     else Inr (txb, buf))"
  by pat_completeness auto
termination pages_loop
  by (relation "measure (\<lambda>(vm, xr, yr, x, y, txb, buf). unat (yr div 8) - unat y)")
     (auto simp: unat_succ_lt word_less_nat_alt)

function cols_loop :: "u16 list \<Rightarrow> u32 \<Rightarrow> u32 \<Rightarrow> s32 \<Rightarrow> u8 list \<Rightarrow> nat \<Rightarrow> error + (u8 list \<times> nat)" where
  "cols_loop vmem16 xr yr x txb buf =
    (if x < xr then
       (case pages_loop vmem16 xr yr x 0 txb buf of
          Inl e \<Rightarrow> Inl e
        | Inr (txb', buf') \<Rightarrow> cols_loop vmem16 xr yr (x + 1) txb' buf')
     else Inr (txb, buf))"
  by pat_completeness auto
termination cols_loop
  by (relation "measure (\<lambda>(vm, xr, yr, x, txb, buf). unat xr - unat x)")
     (auto simp: unat_succ_lt word_less_nat_alt)

declare bits_loop.simps [simp del] pages_loop.simps [simp del] cols_loop.simps [simp del]

text \<open>
  \<^verbatim>\<open>write_vmem(par, offset, len)\<close>: neither \<^verbatim>\<open>offset\<close> nor \<^verbatim>\<open>len\<close> is read. After
  the loops the D/C line is raised and the first \<^verbatim>\<open>xres * yres / 8\<close> bytes
  (a \<^verbatim>\<open>u32\<close> product, so modulo \<open>2 ^ 32\<close>) of \<^verbatim>\<open>txbuf\<close> go out as one burst; the
  transport's return value is returned as it is.
\<close>

definition write_vmem :: "par \<Rightarrow> 64 word \<Rightarrow> 64 word \<Rightarrow> error + (int \<times> par)" where
  "write_vmem par offset len =
    (case cols_loop (screen_buffer par) (xres par) (yres par) 0 (txbuf par) 0 of
       Inl e \<Rightarrow> Inl e
     | Inr (txb, buf) \<Rightarrow>
         (let n = unat (xres par * yres par div 8) in
          if n \<le> length txb then
            (let (ret, b) = bus_write (Data (take n txb)) (bus par)
             in Inr (ret, par\<lparr>txbuf := txb, bus := b\<rparr>))
          else Inl OutOfBounds))"

subsection \<open>Specification-side notions\<close>

text \<open>
  The specification's reading of a packed frame, written from its words and
  used only to state the round trip: bit \<open>i\<close> of byte \<open>x * (height / 8) + y\<close>
  is the pixel in column \<open>x\<close> and row \<open>y * 8 + i\<close>, and the pixels are listed
  row by row.
\<close>

definition spec_expand :: "nat \<Rightarrow> nat \<Rightarrow> u8 list \<Rightarrow> u16 list" where
  "spec_expand w h bs =
    map (\<lambda>k. if bit (bs ! ((k mod w) * (h div 8) + (k div w) div 8)) ((k div w) mod 8)
              then 1 else 0) [0..<w * h]"

text \<open>
  The specification's geometry invariant: positive width, positive height,
  height a multiple of 8.
\<close>

definition spec_geometry :: "u32 \<Rightarrow> u32 \<Rightarrow> bool" where
  "spec_geometry w h \<longleftrightarrow> 0 < w \<and> 0 < h \<and> h mod 8 = 0"

text \<open>
  The specification's display lifecycle. The driver has no such variable; the
  specification moves it On to Blanked with Display-OFF (0xAE) and Blanked to
  On with Display-ON (0xAF), so it is followed here over the commands issued.
\<close>

datatype DisplayState = Uninitialized | Initializing | On | Blanked

fun spec_display_step :: "DisplayState \<Rightarrow> transaction \<Rightarrow> DisplayState" where
  "spec_display_step On (Cmd v) = (if v = 0xAE then Blanked else On)"
| "spec_display_step Blanked (Cmd v) = (if v = 0xAF then On else Blanked)"
| "spec_display_step s t = s"

definition spec_display_run :: "DisplayState \<Rightarrow> transaction list \<Rightarrow> DisplayState" where
  "spec_display_run s ts = foldl spec_display_step s ts"

subsection \<open>Concrete driver states\<close>

text \<open>
  A freshly probed panel of the given geometry: rotation 0, contrast not yet
  configured, empty buffers, nothing sent on the bus, and a transport whose
  return values are given by \<open>oc\<close>.
\<close>

definition no_faults :: "nat \<Rightarrow> int" where
  "no_faults k = 0"

definition first_write_fails :: "nat \<Rightarrow> int" where
  "first_write_fails k = (if k = 0 then - 5 else 0)"

definition unset_curves :: "nat \<Rightarrow> u32" where
  "unset_curves k = 0"

definition panel :: "u32 \<Rightarrow> u32 \<Rightarrow> (nat \<Rightarrow> int) \<Rightarrow> par" where
  "panel w h oc = \<lparr>xres = w, yres = h, rotate = 0, gamma_curves = unset_curves,
     screen_buffer = [], txbuf = [], bus = \<lparr>issued = [], outcome = oc\<rparr>, resets = 0\<rparr>"

text \<open>
  Two 2x8 frames, sixteen samples row by row, with a three-byte transmit
  buffer holding stale bytes: one with a sample other than 0 and 1, one
  strictly monochrome.
\<close>

definition demo_frame :: par where
  "demo_frame = (panel 2 8 no_faults)
     \<lparr>screen_buffer := [1, 0,  0, 0,  0, 5,  0, 0,  0, 0,  0, 0,  0, 0,  0, 1],
      txbuf := [0xFF, 0xFF, 0xFF]\<rparr>"

definition demo_mono_frame :: par where
  "demo_mono_frame = (panel 2 8 no_faults)
     \<lparr>screen_buffer := [1, 0,  0, 0,  0, 1,  0, 0,  0, 0,  0, 0,  0, 0,  0, 1],
      txbuf := [0xFF, 0xFF, 0xFF]\<rparr>"

section \<open>Command sequences\<close>

lemma write_reg_issued: "issued (bus (write_reg p v)) = issued (bus p) @ [Cmd v]"
  by (simp add: write_reg_def bus_write_def)

lemma write_reg_fields:
  "xres (write_reg p v) = xres p" "yres (write_reg p v) = yres p"
  "rotate (write_reg p v) = rotate p" "gamma_curves (write_reg p v) = gamma_curves p"
  "outcome (bus (write_reg p v)) = outcome (bus p)"
  by (simp_all add: write_reg_def bus_write_def)

lemma init_display_issued:
  "issued (bus (snd (init_display par))) = issued (bus par) @ init_commands par"
  by (simp add: init_display_def Let_def write_reg_issued write_reg_fields reset_def
      init_commands_def)

text \<open>
  Claim C2, as amended. \<^verbatim>\<open>init_display\<close> issues exactly these 23 command
  transactions, in this order, one value per transaction: Display OFF; clock
  divide and its argument; multiplex ratio and \<open>yres - 1\<close>; display offset and
  0; start line; charge pump and its argument; segment remap and COM scan
  direction (mirrored from 180 degrees on); COM pins and its argument, 0x12
  when \<open>yres\<close> is 64 or 48 and 0x02 otherwise; addressing mode and vertical;
  pre-charge and its argument; VCOMH and its argument; resume; normal display;
  Display ON. Between two geometries the COM-pins argument and the
  multiplex-ratio argument are the only values that can differ.
\<close>

theorem init_display_sequence:
  "issued (bus (snd (init_display par))) = issued (bus par) @
     [Cmd 0xAE, Cmd 0xD5, Cmd 0x80, Cmd 0xA8, Cmd (yres par - 1), Cmd 0xD3, Cmd 0x00,
      Cmd 0x40, Cmd 0x8D, Cmd 0x14,
      Cmd (if rotate par \<ge> 180 then 0xA1 else 0xA0),
      Cmd (if rotate par \<ge> 180 then 0xC8 else 0xC0),
      Cmd 0xDA, Cmd (if yres par = 64 \<or> yres par = 48 then 0x12 else 0x02),
      Cmd 0x20, Cmd 0x01, Cmd 0xD9, Cmd 0xF1, Cmd 0xDB, Cmd 0x40, Cmd 0xA4, Cmd 0xA6,
      Cmd 0xAF]"
  using init_display_issued [of par] by (simp add: init_commands_def)

text \<open>
  Claim C2 as stated fails: for the geometries 128x64 and 128x32 the fifth
  transaction (the multiplex-ratio argument) is 0x3F and 0x1F, so the COM-pins
  argument (the fourteenth transaction) is not the only value that differs.
\<close>

theorem init_display_geometries_differ:
  "issued (bus (snd (init_display (panel 128 64 no_faults)))) ! 4 = Cmd 0x3F
   \<and> issued (bus (snd (init_display (panel 128 32 no_faults)))) ! 4 = Cmd 0x1F
   \<and> issued (bus (snd (init_display (panel 128 64 no_faults)))) ! 13 = Cmd 0x12
   \<and> issued (bus (snd (init_display (panel 128 32 no_faults)))) ! 13 = Cmd 0x02"
  by (simp add: init_display_issued init_commands_def panel_def)

text \<open>
  Claim C3. \<^verbatim>\<open>set_addr_win\<close> changes nothing but the bus, on which it issues six
  command transactions: for the geometry 64x48 the column range 0x21 with
  start 0x20 and end 0x5F and the page range 0x22 with start 0 and end 5; for
  every other geometry the column range with start 0 and end \<open>xres - 1\<close> and
  the page range with start 0 and end \<open>yres / 8 - 1\<close>. Neither the four
  coordinates nor the pixel buffer enter the result.
\<close>

theorem set_addr_win_commands:
  "set_addr_win par xs ys xe ye =
     par\<lparr>bus := (bus par)\<lparr>issued := issued (bus par) @
       (if xres par = 64 \<and> yres par = 48
        then [Cmd 0x21, Cmd 0x20, Cmd 0x5F, Cmd 0x22, Cmd 0, Cmd 5]
        else [Cmd 0x21, Cmd 0, Cmd (xres par - 1), Cmd 0x22, Cmd 0, Cmd (yres par div 8 - 1)])\<rparr>\<rparr>"
  by (simp add: set_addr_win_def set_addr_win_64x48_def set_addr_win_top_left_def Let_def
      write_reg_def bus_write_def)

text \<open>
  Claim C4. After \<^verbatim>\<open>init_display\<close> the contrast array is the old one, except
  that an element 0 that was 0 has become 0xCF when \<open>yres\<close> is 64 and 0x8F for
  every other height; a nonzero element 0 is kept. Element 0 is nonzero
  afterwards in every case.
\<close>

theorem init_display_contrast_default:
  "gamma_curves (snd (init_display par)) =
     (if gamma_curves par 0 = 0
      then (gamma_curves par)(0 := (if yres par = 64 then 0xCF else 0x8F))
      else gamma_curves par)
   \<and> gamma_curves (snd (init_display par)) 0 \<noteq> 0"
  by (simp add: init_display_def Let_def write_reg_fields reset_def)

text \<open>
  Claim C5, as amended. \<^verbatim>\<open>set_addr_win\<close> rejects no geometry: it has no result
  to report one with, and for every geometry it issues six transactions, those
  of the centred variant for 64x48 and those of the top-left variant for
  everything else.
\<close>

theorem set_addr_win_never_rejects:
  "length (issued (bus (set_addr_win par xs ys xe ye))) = length (issued (bus par)) + 6
   \<and> set_addr_win par xs ys xe ye =
       (if xres par = 64 \<and> yres par = 48 then set_addr_win_64x48 par
        else set_addr_win_top_left par)"
  by (simp add: set_addr_win_def set_addr_win_64x48_def set_addr_win_top_left_def Let_def
      write_reg_issued)

text \<open>
  Claim C5 as stated fails: 128x33 breaks the geometry invariant (the height
  is no multiple of 8), and \<^verbatim>\<open>set_addr_win\<close> still programs the top-left
  window for it.
\<close>

theorem set_addr_win_unsupported_counterexample:
  "\<not> spec_geometry 128 33
   \<and> issued (bus (set_addr_win (panel 128 33 no_faults) 0 0 0 0)) =
       [Cmd 0x21, Cmd 0, Cmd 127, Cmd 0x22, Cmd 0, Cmd 3]"
  by (simp add: spec_geometry_def set_addr_win_def set_addr_win_top_left_def Let_def
      write_reg_issued write_reg_fields panel_def)

text \<open>
  Claim C6, as amended. \<^verbatim>\<open>init_display\<close> never looks at the result of a bus
  write: whatever the transport returns, it attempts all 23 transactions,
  returns 0, and leaves the transport's behaviour untouched.
\<close>

theorem init_display_ignores_failures:
  "fst (init_display par) = 0
   \<and> length (issued (bus (snd (init_display par)))) = length (issued (bus par)) + 23
   \<and> outcome (bus (snd (init_display par))) = outcome (bus par)"
  by (simp add: init_display_issued init_commands_def)
     (simp add: init_display_def Let_def write_reg_fields reset_def)

text \<open>
  Claim C6 as stated fails: on a bus whose first write fails (returns -5),
  \<^verbatim>\<open>init_display\<close> goes on to the 23rd transaction, Display ON, and returns 0.
\<close>

theorem init_display_failed_write_counterexample:
  "outcome (bus (panel 128 64 first_write_fails)) 0 < 0
   \<and> fst (init_display (panel 128 64 first_write_fails)) = 0
   \<and> length (issued (bus (snd (init_display (panel 128 64 first_write_fails))))) = 23
   \<and> last (issued (bus (snd (init_display (panel 128 64 first_write_fails))))) = Cmd 0xAF"
  by (simp add: init_display_issued init_commands_def)
     (simp add: init_display_def Let_def panel_def first_write_fails_def)

text \<open>
  Claim C8. \<^verbatim>\<open>set_gamma\<close> returns 0 and changes nothing in \<^verbatim>\<open>par\<close> but the bus,
  on which it issues exactly two command transactions: 0x81, then element 0
  of the array masked to its low 8 bits.
\<close>

theorem set_gamma_commands:
  "fst (set_gamma par curves) = 0
   \<and> fst (snd (set_gamma par curves)) =
       par\<lparr>bus := (bus par)\<lparr>issued := issued (bus par) @ [Cmd 0x81, Cmd (curves 0 AND 0xFF)]\<rparr>\<rparr>"
  by (simp add: set_gamma_def Let_def write_reg_def bus_write_def)

text \<open>
  Claim C9. \<^verbatim>\<open>blank(par, true)\<close> issues the single command 0xAE and
  \<^verbatim>\<open>blank(par, false)\<close> the single command 0xAF, both returning 0; the two
  calls in that order issue 0xAE then 0xAF, which takes the specification's
  display state from On back to On.
\<close>

theorem blank_commands:
  "blank par True = (0, par\<lparr>bus := (bus par)\<lparr>issued := issued (bus par) @ [Cmd 0xAE]\<rparr>\<rparr>)
   \<and> blank par False = (0, par\<lparr>bus := (bus par)\<lparr>issued := issued (bus par) @ [Cmd 0xAF]\<rparr>\<rparr>)
   \<and> issued (bus (snd (blank (snd (blank par True)) False))) =
       issued (bus par) @ [Cmd 0xAE, Cmd 0xAF]
   \<and> spec_display_run On
       (drop (length (issued (bus par))) (issued (bus (snd (blank (snd (blank par True)) False))))) = On"
  by (simp add: blank_def Let_def write_reg_def bus_write_def spec_display_run_def)

text \<open>
  Claim C10. \<^verbatim>\<open>set_gamma\<close> writes through the pointer it is given: the caller's
  array comes back with element 0 replaced by its low 8 bits, a value below
  256, and every other element as it was.
\<close>

theorem set_gamma_masks_in_place:
  "snd (snd (set_gamma par curves)) = curves(0 := curves 0 AND 0xFF)
   \<and> unat (snd (snd (set_gamma par curves)) 0) < 256"
proof -
  have "unat (curves 0 AND 0xFF) \<le> unat (0xFF :: u32)"
    by (rule word_and_le1 [THEN word_le_nat_alt [THEN iffD1]])
  then show ?thesis by (simp add: set_gamma_def Let_def)
qed

section \<open>The frame packer\<close>

lemma sint_of_nat_small: "k \<le> 8 \<Longrightarrow> sint (of_nat k :: 32 word) = int k"
proof -
  assume k: "k \<le> 8"
  have "sint (of_nat k :: 32 word) = signed_take_bit 31 (int k)"
    by (simp add: signed_of_nat)
  also have "\<dots> = int k"
    using k by (intro signed_take_bit_int_eq_self) simp_all
  finally show ?thesis .
qed

lemma sless_of_nat_8: "k \<le> 8 \<Longrightarrow> (of_nat k :: 32 word) <s 8 \<longleftrightarrow> k < 8"
  using sint_of_nat_small [of k] sint_of_nat_small [of 8]
  by (simp add: word_sless_alt)

lemma unat_of_nat_small: "k \<le> 8 \<Longrightarrow> unat (of_nat k :: 32 word) = k"
  by (simp add: unat_of_nat)

lemma bit_or_push_sample:
  "j < 8 \<Longrightarrow> bit (b OR push_bit k (if c then 1 else 0 :: 8 word)) j \<longleftrightarrow> bit b j \<or> (j = k \<and> c)"
  by (auto simp: bit_simps)

lemma bits_loop_from:
  assumes "buf < length txb" and "k \<le> 8"
    and "\<forall>j. k \<le> j \<and> j < 8 \<longrightarrow> unat ((y * 8 + of_nat j) * xr + x) < length vm"
  shows "\<exists>b. bits_loop vm xr x y (of_nat k) txb buf = Inr (txb[buf := b])
           \<and> (\<forall>j<8. bit b j \<longleftrightarrow>
                bit (txb ! buf) j \<or> (k \<le> j \<and> vm ! unat ((y * 8 + of_nat j) * xr + x) \<noteq> 0))"
  using assms
proof (induction "8 - k" arbitrary: k txb)
  case 0
  then have k: "k = 8" by simp
  have "bits_loop vm xr x y (of_nat k) txb buf = Inr txb"
    by (subst bits_loop.simps) (simp add: k)
  then show ?case
    using k by (intro exI [of _ "txb ! buf"]) simp
next
  case (Suc n)
  then have k: "k < 8" by simp
  let ?idx = "(y * 8 + of_nat k) * xr + x"
  let ?s = "if vm ! unat ?idx \<noteq> 0 then 1 else 0 :: 8 word"
  let ?txb1 = "txb[buf := txb ! buf OR push_bit k ?s]"
  have idx: "unat ?idx < length vm" using Suc.prems(3) k by simp
  have step: "bits_loop vm xr x y (of_nat k) txb buf
              = bits_loop vm xr x y (of_nat (Suc k)) ?txb1 buf"
    using k idx Suc.prems(1)
    by (subst bits_loop.simps) (simp add: sless_of_nat_8 unat_of_nat_small Let_def ac_simps)
  have "\<exists>b. bits_loop vm xr x y (of_nat (Suc k)) ?txb1 buf = Inr (?txb1[buf := b])
           \<and> (\<forall>j<8. bit b j \<longleftrightarrow>
                bit (?txb1 ! buf) j \<or> (Suc k \<le> j \<and> vm ! unat ((y * 8 + of_nat j) * xr + x) \<noteq> 0))"
    using Suc.hyps(2) Suc.prems k by (intro Suc.hyps(1)) auto
  then obtain b where b: "bits_loop vm xr x y (of_nat (Suc k)) ?txb1 buf = Inr (?txb1[buf := b])"
    and bits: "\<forall>j<8. bit b j \<longleftrightarrow>
                bit (?txb1 ! buf) j \<or> (Suc k \<le> j \<and> vm ! unat ((y * 8 + of_nat j) * xr + x) \<noteq> 0)"
    by blast
  have "bits_loop vm xr x y (of_nat k) txb buf = Inr (txb[buf := b])"
    using step b by simp
  moreover have "\<forall>j<8. bit b j \<longleftrightarrow>
      bit (txb ! buf) j \<or> (k \<le> j \<and> vm ! unat ((y * 8 + of_nat j) * xr + x) \<noteq> 0)"
  proof (intro allI impI)
    fix j :: nat assume j: "j < 8"
    have "bit (?txb1 ! buf) j \<longleftrightarrow> bit (txb ! buf) j \<or> (j = k \<and> vm ! unat ?idx \<noteq> 0)"
      using Suc.prems(1) j by (simp add: bit_or_push_sample)
    then show "bit b j \<longleftrightarrow>
      bit (txb ! buf) j \<or> (k \<le> j \<and> vm ! unat ((y * 8 + of_nat j) * xr + x) \<noteq> 0)"
      using bits j by (auto simp: le_less Suc_le_eq)
  qed
  ultimately show ?case by blast
qed

lemma vmem_index:
  fixes xr yr x y :: "32 word"
  assumes wh: "unat xr * unat yr < 2 ^ 32" and x: "x < xr" and y: "y < yr div 8" and j: "j < 8"
  shows "unat ((y * 8 + of_nat j) * xr + x) = (unat y * 8 + j) * unat xr + unat x"
    and "(unat y * 8 + j) * unat xr + unat x < unat xr * unat yr"
proof -
  let ?w = "unat xr" and ?h = "unat yr" and ?r = "unat y * 8 + j"
  have xn: "unat x < ?w" using x by (simp add: word_less_nat_alt)
  have "unat y < ?h div 8" using y by (simp add: word_less_nat_alt unat_div)
  then have r: "?r < ?h" using j by simp
  then have "Suc ?r * ?w \<le> ?h * ?w" by (intro mult_le_mono1) simp
  then show lt: "?r * ?w + unat x < ?w * ?h" using xn by (simp add: mult.commute)
  have b4: "?r * ?w + unat x < 2 ^ 32" using lt wh by simp
  then have b3: "?r * ?w < 2 ^ 32" by simp
  have "unat yr < 2 ^ 32" using unsigned_less [of yr] by simp
  then have b2: "?r < 2 ^ 32" using r by simp
  then have b1: "unat y * 8 < 2 ^ 32" by simp
  have s2: "unat (of_nat j :: 32 word) = j"
    using j by (simp add: unat_of_nat)
  have "unat (y * 8) = unat y * unat (8 :: 32 word)"
    by (rule iffD1 [OF unat_mult_lem]) (use b1 in simp)
  then have s1: "unat (y * 8) = unat y * 8" by simp
  have "unat (y * 8 + of_nat j) = unat (y * 8) + unat (of_nat j :: 32 word)"
    by (rule iffD1 [OF unat_add_lem]) (use b2 in \<open>simp only: s1 s2 len_bit0 len_num1\<close>, simp)
  then have s3: "unat (y * 8 + of_nat j) = ?r" by (simp only: s1 s2)
  have "unat ((y * 8 + of_nat j) * xr) = unat (y * 8 + of_nat j) * unat xr"
    by (rule iffD1 [OF unat_mult_lem]) (use b3 in \<open>simp only: s3 len_bit0 len_num1\<close>, simp)
  then have s4: "unat ((y * 8 + of_nat j) * xr) = ?r * ?w" by (simp only: s3)
  have "unat ((y * 8 + of_nat j) * xr + x) = unat ((y * 8 + of_nat j) * xr) + unat x"
    by (rule iffD1 [OF unat_add_lem]) (use b4 in \<open>simp only: s4 len_bit0 len_num1\<close>, simp)
  then show "unat ((y * 8 + of_nat j) * xr + x) = ?r * ?w + unat x" by (simp only: s4)
qed

lemma pages_loop_from:
  fixes xr yr x y :: "32 word"
  assumes wh: "unat xr * unat yr < 2 ^ 32" and len: "length vm = unat xr * unat yr"
    and x: "x < xr"
    and y: "unat y \<le> unat yr div 8"
    and room: "buf + (unat yr div 8 - unat y) \<le> length txb"
  shows "\<exists>txb'. pages_loop vm xr yr x y txb buf = Inr (txb', buf + (unat yr div 8 - unat y))
           \<and> length txb' = length txb
           \<and> (\<forall>q<buf. txb' ! q = txb ! q)
           \<and> (\<forall>m j. m < unat yr div 8 - unat y \<longrightarrow> j < 8 \<longrightarrow>
                (bit (txb' ! (buf + m)) j \<longleftrightarrow>
                 vm ! (((unat y + m) * 8 + j) * unat xr + unat x) \<noteq> 0))"
  using y room
proof (induction "unat yr div 8 - unat y" arbitrary: y txb buf)
  case 0
  then have "\<not> y < yr div 8" by (simp add: word_less_nat_alt unat_div)
  then have "pages_loop vm xr yr x y txb buf = Inr (txb, buf)"
    by (subst pages_loop.simps) simp
  then show ?case using 0 by simp
next
  case (Suc n)
  let ?P = "unat yr div 8"
  have yn: "unat y < ?P" using Suc.hyps(2) by simp
  then have yw: "y < yr div 8" by (simp add: word_less_nat_alt unat_div)
  have buf: "buf < length txb" using Suc.prems(2) yn by simp
  have y1: "unat (y + 1) = unat y + 1" using yw by (rule unat_succ_lt)
  let ?txb0 = "txb[buf := 0]"
  have inr: "\<forall>j. 0 \<le> j \<and> j < 8 \<longrightarrow> unat ((y * 8 + of_nat j) * xr + x) < length vm"
    using vmem_index [OF wh x yw] len by simp
  have "\<exists>b. bits_loop vm xr x y (of_nat 0) ?txb0 buf = Inr (?txb0[buf := b])
           \<and> (\<forall>j<8. bit b j \<longleftrightarrow>
                bit (?txb0 ! buf) j \<or> (0 \<le> j \<and> vm ! unat ((y * 8 + of_nat j) * xr + x) \<noteq> 0))"
    using buf inr by (intro bits_loop_from) simp_all
  then obtain b where b: "bits_loop vm xr x y 0 ?txb0 buf = Inr (txb[buf := b])"
    and bits: "\<forall>j<8. bit b j \<longleftrightarrow> vm ! ((unat y * 8 + j) * unat xr + unat x) \<noteq> 0"
    using buf vmem_index(1) [OF wh x yw] by auto
  have step: "pages_loop vm xr yr x y txb buf = pages_loop vm xr yr x (y + 1) (txb[buf := b]) (buf + 1)"
    using yw buf b by (subst pages_loop.simps) simp
  have "\<exists>txb'. pages_loop vm xr yr x (y + 1) (txb[buf := b]) (buf + 1)
             = Inr (txb', (buf + 1) + (?P - unat (y + 1)))
           \<and> length txb' = length (txb[buf := b])
           \<and> (\<forall>q<buf + 1. txb' ! q = (txb[buf := b]) ! q)
           \<and> (\<forall>m j. m < ?P - unat (y + 1) \<longrightarrow> j < 8 \<longrightarrow>
                (bit (txb' ! ((buf + 1) + m)) j \<longleftrightarrow>
                 vm ! (((unat (y + 1) + m) * 8 + j) * unat xr + unat x) \<noteq> 0))"
    using Suc.hyps(2) Suc.prems yn y1 by (intro Suc.hyps(1)) simp_all
  then obtain txb' where
    run: "pages_loop vm xr yr x (y + 1) (txb[buf := b]) (buf + 1) = Inr (txb', buf + (?P - unat y))"
    and l: "length txb' = length txb"
    and keep: "\<forall>q<buf + 1. txb' ! q = (txb[buf := b]) ! q"
    and rest: "\<forall>m j. m < ?P - unat y - 1 \<longrightarrow> j < 8 \<longrightarrow>
                (bit (txb' ! (buf + 1 + m)) j \<longleftrightarrow>
                 vm ! (((unat y + 1 + m) * 8 + j) * unat xr + unat x) \<noteq> 0)"
    using y1 yn by auto
  have here: "txb' ! buf = b" using keep buf by simp
  have below: "\<forall>q<buf. txb' ! q = txb ! q" using keep by simp
  have all: "\<forall>m j. m < ?P - unat y \<longrightarrow> j < 8 \<longrightarrow>
                (bit (txb' ! (buf + m)) j \<longleftrightarrow>
                 vm ! (((unat y + m) * 8 + j) * unat xr + unat x) \<noteq> 0)"
  proof (intro allI impI)
    fix m j assume m: "m < ?P - unat y" and j: "j < (8::nat)"
    show "bit (txb' ! (buf + m)) j \<longleftrightarrow>
                 vm ! (((unat y + m) * 8 + j) * unat xr + unat x) \<noteq> 0"
    proof (cases m)
      case 0
      then show ?thesis using here bits j by simp
    next
      case (Suc m')
      then have "m' < ?P - unat y - 1" using m by simp
      then show ?thesis using rest j Suc by simp
    qed
  qed
  show ?case using step run l below all by simp
qed

lemma cols_loop_from:
  fixes xr yr x :: "32 word"
  assumes wh: "unat xr * unat yr < 2 ^ 32" and len: "length vm = unat xr * unat yr"
    and x: "unat x \<le> unat xr"
    and room: "buf + (unat xr - unat x) * (unat yr div 8) \<le> length txb"
  shows "\<exists>txb'. cols_loop vm xr yr x txb buf
             = Inr (txb', buf + (unat xr - unat x) * (unat yr div 8))
           \<and> length txb' = length txb
           \<and> (\<forall>q<buf. txb' ! q = txb ! q)
           \<and> (\<forall>c m j. c < unat xr - unat x \<longrightarrow> m < unat yr div 8 \<longrightarrow> j < 8 \<longrightarrow>
                (bit (txb' ! (buf + c * (unat yr div 8) + m)) j \<longleftrightarrow>
                 vm ! ((m * 8 + j) * unat xr + (unat x + c)) \<noteq> 0))"
  using x room
proof (induction "unat xr - unat x" arbitrary: x txb buf)
  case 0
  then have "\<not> x < xr" by (simp add: word_less_nat_alt)
  then have "cols_loop vm xr yr x txb buf = Inr (txb, buf)"
    by (subst cols_loop.simps) simp
  then show ?case using 0 by simp
next
  case (Suc n)
  let ?P = "unat yr div 8"
  have xn: "unat x < unat xr" using Suc.hyps(2) by simp
  then have xw: "x < xr" by (simp add: word_less_nat_alt)
  have x1: "unat (x + 1) = unat x + 1" using xw by (rule unat_succ_lt)
  have n: "unat xr - unat x = Suc n" using Suc.hyps(2) by simp
  have room1: "buf + ?P \<le> length txb" using Suc.prems(2) n by simp
  have "\<exists>txb1. pages_loop vm xr yr x 0 txb buf = Inr (txb1, buf + (?P - unat (0 :: 32 word)))
           \<and> length txb1 = length txb
           \<and> (\<forall>q<buf. txb1 ! q = txb ! q)
           \<and> (\<forall>m j. m < ?P - unat (0 :: 32 word) \<longrightarrow> j < 8 \<longrightarrow>
                (bit (txb1 ! (buf + m)) j \<longleftrightarrow>
                 vm ! (((unat (0 :: 32 word) + m) * 8 + j) * unat xr + unat x) \<noteq> 0))"
    using wh len xw room1 by (intro pages_loop_from) simp_all
  then obtain txb1 where
    p: "pages_loop vm xr yr x 0 txb buf = Inr (txb1, buf + ?P)"
    and l1: "length txb1 = length txb"
    and keep1: "\<forall>q<buf. txb1 ! q = txb ! q"
    and col: "\<forall>m j. m < ?P \<longrightarrow> j < 8 \<longrightarrow>
                (bit (txb1 ! (buf + m)) j \<longleftrightarrow> vm ! ((m * 8 + j) * unat xr + unat x) \<noteq> 0)"
    by auto
  have step: "cols_loop vm xr yr x txb buf = cols_loop vm xr yr (x + 1) txb1 (buf + ?P)"
    using xw p by (subst cols_loop.simps) simp
  have n1: "unat xr - unat (x + 1) = n" using n x1 by simp
  have room2: "(buf + ?P) + (unat xr - unat (x + 1)) * ?P \<le> length txb1"
    using Suc.prems(2) n l1 by (simp add: n1)
  have "\<exists>txb'. cols_loop vm xr yr (x + 1) txb1 (buf + ?P)
             = Inr (txb', (buf + ?P) + (unat xr - unat (x + 1)) * ?P)
           \<and> length txb' = length txb1
           \<and> (\<forall>q<buf + ?P. txb' ! q = txb1 ! q)
           \<and> (\<forall>c m j. c < unat xr - unat (x + 1) \<longrightarrow> m < ?P \<longrightarrow> j < 8 \<longrightarrow>
                (bit (txb' ! ((buf + ?P) + c * ?P + m)) j \<longleftrightarrow>
                 vm ! ((m * 8 + j) * unat xr + (unat (x + 1) + c)) \<noteq> 0))"
    using n1 xn x1 room2 by (intro Suc.hyps(1)) simp_all
  then obtain txb' where
    run: "cols_loop vm xr yr (x + 1) txb1 (buf + ?P) = Inr (txb', buf + Suc n * ?P)"
    and l: "length txb' = length txb"
    and keep: "\<forall>q<buf + ?P. txb' ! q = txb1 ! q"
    and rest: "\<forall>c m j. c < n \<longrightarrow> m < ?P \<longrightarrow> j < 8 \<longrightarrow>
                (bit (txb' ! (buf + ?P + c * ?P + m)) j \<longleftrightarrow>
                 vm ! ((m * 8 + j) * unat xr + (unat x + 1 + c)) \<noteq> 0)"
    using x1 n n1 l1 by auto
  have below: "\<forall>q<buf. txb' ! q = txb ! q" using keep keep1 by simp
  have all: "\<forall>c m j. c < Suc n \<longrightarrow> m < ?P \<longrightarrow> j < 8 \<longrightarrow>
                (bit (txb' ! (buf + c * ?P + m)) j \<longleftrightarrow>
                 vm ! ((m * 8 + j) * unat xr + (unat x + c)) \<noteq> 0)"
  proof (intro allI impI)
    fix c m j assume c: "c < Suc n" and m: "m < ?P" and j: "j < (8::nat)"
    show "bit (txb' ! (buf + c * ?P + m)) j \<longleftrightarrow>
                 vm ! ((m * 8 + j) * unat xr + (unat x + c)) \<noteq> 0"
    proof (cases c)
      case 0
      have "txb' ! (buf + m) = txb1 ! (buf + m)" using keep m by simp
      then show ?thesis using col m j 0 by simp
    next
      case (Suc c')
      then have "c' < n" using c by simp
      then have "bit (txb' ! (buf + ?P + c' * ?P + m)) j \<longleftrightarrow>
                 vm ! ((m * 8 + j) * unat xr + (unat x + 1 + c')) \<noteq> 0"
        using rest m j by blast
      then show ?thesis using Suc by (simp add: add.assoc add.left_commute)
    qed
  qed
  show ?case using step run l below all n by simp
qed

lemma write_vmem_result:
  assumes h8: "unat (yres par) mod 8 = 0"
    and len: "length (screen_buffer par) = unat (xres par) * unat (yres par)"
    and wh: "unat (xres par) * unat (yres par) < 2 ^ 32"
    and room: "unat (xres par) * unat (yres par) div 8 \<le> length (txbuf par)"
  shows "\<exists>txb'. write_vmem par offset len
             = Inr (outcome (bus par) (length (issued (bus par))),
                    par\<lparr>txbuf := txb',
                        bus := (bus par)\<lparr>issued := issued (bus par) @
                          [Data (take (unat (xres par) * unat (yres par) div 8) txb')]\<rparr>\<rparr>)
           \<and> length txb' = length (txbuf par)
           \<and> (\<forall>x y i. x < unat (xres par) \<longrightarrow> y < unat (yres par) div 8 \<longrightarrow> i < 8 \<longrightarrow>
                (bit (txb' ! (x * (unat (yres par) div 8) + y)) i \<longleftrightarrow>
                 screen_buffer par ! ((y * 8 + i) * unat (xres par) + x) \<noteq> 0))"
proof -
  let ?w = "unat (xres par)" and ?h = "unat (yres par)"
  let ?P = "?h div 8"
  have split: "?w * ?h div 8 = ?w * ?P"
    using h8 by (metis div_mult_swap dvd_eq_mod_eq_0 mult.commute)
  have "unat (xres par * yres par) = ?w * ?h"
    by (rule iffD1 [OF unat_mult_lem]) (use wh in simp)
  then have n: "unat (xres par * yres par div 8) = ?w * ?h div 8"
    by (simp add: unat_div)
  have "\<exists>txb'. cols_loop (screen_buffer par) (xres par) (yres par) 0 (txbuf par) 0
             = Inr (txb', 0 + (?w - unat (0 :: 32 word)) * ?P)
           \<and> length txb' = length (txbuf par)
           \<and> (\<forall>q<0. txb' ! q = txbuf par ! q)
           \<and> (\<forall>c m j. c < ?w - unat (0 :: 32 word) \<longrightarrow> m < ?P \<longrightarrow> j < 8 \<longrightarrow>
                (bit (txb' ! (0 + c * ?P + m)) j \<longleftrightarrow>
                 screen_buffer par ! ((m * 8 + j) * ?w + (unat (0 :: 32 word) + c)) \<noteq> 0))"
    using wh len room split by (intro cols_loop_from) simp_all
  then obtain txb' where
    run: "cols_loop (screen_buffer par) (xres par) (yres par) 0 (txbuf par) 0 = Inr (txb', ?w * ?P)"
    and l: "length txb' = length (txbuf par)"
    and bits: "\<forall>c m j. c < ?w \<longrightarrow> m < ?P \<longrightarrow> j < 8 \<longrightarrow>
                (bit (txb' ! (c * ?P + m)) j \<longleftrightarrow>
                 screen_buffer par ! ((m * 8 + j) * ?w + c) \<noteq> 0)"
    by auto
  have "write_vmem par offset len
          = Inr (outcome (bus par) (length (issued (bus par))),
                 par\<lparr>txbuf := txb',
                     bus := (bus par)\<lparr>issued := issued (bus par) @
                       [Data (take (?w * ?h div 8) txb')]\<rparr>\<rparr>)"
    using run l room n by (simp add: write_vmem_def bus_write_def)
  then show ?thesis using l bits by blast
qed

lemma page_index_bound: "x < w \<Longrightarrow> y < p \<Longrightarrow> x * p + y < w * p" for x y w p :: nat
proof -
  assume x: "x < w" and y: "y < p"
  have "x * p + y < Suc x * p" using y by simp
  also have "\<dots> \<le> w * p" using x by (intro mult_le_mono1) simp
  finally show ?thesis .
qed

text \<open>
  Claim C1. For a geometry whose height is a multiple of 8 and whose pixel
  count fits the 32-bit index arithmetic, a pixel buffer of width * height
  samples and a transmit buffer with room for the frame, \<^verbatim>\<open>write_vmem\<close> returns
  normally and sends one data burst of exactly width * height / 8 bytes, in
  which bit \<open>i\<close> of byte \<open>x * (height / 8) + y\<close> is set exactly when the sample
  at index \<open>(y * 8 + i) * width + x\<close> is nonzero.
\<close>

theorem write_vmem_packed_frame:
  assumes h8: "unat (yres par) mod 8 = 0"
    and len: "length (screen_buffer par) = unat (xres par) * unat (yres par)"
    and wh: "unat (xres par) * unat (yres par) < 2 ^ 32"
    and room: "unat (xres par) * unat (yres par) div 8 \<le> length (txbuf par)"
  shows "\<exists>ret par' bs. write_vmem par offset len = Inr (ret, par')
           \<and> issued (bus par') = issued (bus par) @ [Data bs]
           \<and> length bs = unat (xres par) * unat (yres par) div 8
           \<and> (\<forall>x<unat (xres par). \<forall>y<unat (yres par) div 8. \<forall>i<8.
                bit (bs ! (x * (unat (yres par) div 8) + y)) i \<longleftrightarrow>
                screen_buffer par ! ((y * 8 + i) * unat (xres par) + x) \<noteq> 0)"
proof -
  let ?w = "unat (xres par)" and ?h = "unat (yres par)"
  let ?n = "?w * ?h div 8"
  have split: "?n = ?w * (?h div 8)"
    using h8 by (metis div_mult_swap dvd_eq_mod_eq_0 mult.commute)
  obtain txb' where
    run: "write_vmem par offset len
             = Inr (outcome (bus par) (length (issued (bus par))),
                    par\<lparr>txbuf := txb',
                        bus := (bus par)\<lparr>issued := issued (bus par) @ [Data (take ?n txb')]\<rparr>\<rparr>)"
    and l: "length txb' = length (txbuf par)"
    and bits: "\<forall>x y i. x < ?w \<longrightarrow> y < ?h div 8 \<longrightarrow> i < 8 \<longrightarrow>
                (bit (txb' ! (x * (?h div 8) + y)) i \<longleftrightarrow>
                 screen_buffer par ! ((y * 8 + i) * ?w + x) \<noteq> 0)"
    using write_vmem_result [OF h8 len wh room, of offset len] by blast
  let ?bs = "take ?n txb'"
  have lbs: "length ?bs = ?n" using l room by simp
  have "\<forall>x<?w. \<forall>y<?h div 8. \<forall>i<8.
          bit (?bs ! (x * (?h div 8) + y)) i \<longleftrightarrow>
          screen_buffer par ! ((y * 8 + i) * ?w + x) \<noteq> 0"
  proof (intro allI impI)
    fix x y i assume x: "x < ?w" and y: "y < ?h div 8" and i: "i < (8::nat)"
    have "x * (?h div 8) + y < ?n" using page_index_bound [OF x y] split by simp
    then have "?bs ! (x * (?h div 8) + y) = txb' ! (x * (?h div 8) + y)" by simp
    then show "bit (?bs ! (x * (?h div 8) + y)) i \<longleftrightarrow>
          screen_buffer par ! ((y * 8 + i) * ?w + x) \<noteq> 0"
      using bits x y i by simp
  qed
  then show ?thesis using run lbs by (intro exI [of _ "outcome (bus par) (length (issued (bus par)))"] exI [of _ "par\<lparr>txbuf := txb',
                        bus := (bus par)\<lparr>issued := issued (bus par) @ [Data ?bs]\<rparr>\<rparr>"] exI [of _ ?bs]) simp
qed

lemma demo_frame_hyps:
  "unat (yres demo_frame) mod 8 = 0"
  "length (screen_buffer demo_frame) = unat (xres demo_frame) * unat (yres demo_frame)"
  "unat (xres demo_frame) * unat (yres demo_frame) < 2 ^ 32"
  "unat (xres demo_frame) * unat (yres demo_frame) div 8 \<le> length (txbuf demo_frame)"
  by (simp_all add: demo_frame_def panel_def)

text \<open>
  The hypotheses of C1 hold for a 2x8 panel, and the theorem then fixes the
  bits of the two bytes sent: pixel (0,0) and the pixels (1,2), (1,7).
\<close>

theorem write_vmem_packed_frame_witness:
  "unat (yres demo_frame) mod 8 = 0
   \<and> length (screen_buffer demo_frame) = unat (xres demo_frame) * unat (yres demo_frame)
   \<and> unat (xres demo_frame) * unat (yres demo_frame) < 2 ^ 32
   \<and> unat (xres demo_frame) * unat (yres demo_frame) div 8 \<le> length (txbuf demo_frame)
   \<and> (\<exists>ret par' bs. write_vmem demo_frame 0 0 = Inr (ret, par')
         \<and> issued (bus par') = [Data bs] \<and> length bs = 2
         \<and> bit (bs ! 0) 0 \<and> \<not> bit (bs ! 0) 1 \<and> bit (bs ! 1) 2 \<and> bit (bs ! 1) 7)"
proof -
  obtain ret par' bs where run: "write_vmem demo_frame 0 0 = Inr (ret, par')"
    and sent: "issued (bus par') = issued (bus demo_frame) @ [Data bs]"
    and lbs: "length bs = unat (xres demo_frame) * unat (yres demo_frame) div 8"
    and bits: "\<forall>x<unat (xres demo_frame). \<forall>y<unat (yres demo_frame) div 8. \<forall>i<8.
                bit (bs ! (x * (unat (yres demo_frame) div 8) + y)) i \<longleftrightarrow>
                screen_buffer demo_frame ! ((y * 8 + i) * unat (xres demo_frame) + x) \<noteq> 0"
    using write_vmem_packed_frame [OF demo_frame_hyps, of 0 0] by blast
  have g: "unat (xres demo_frame) = 2" "unat (yres demo_frame) = 8"
    by (simp_all add: demo_frame_def panel_def)
  have "bit (bs ! 0) 0" using bits [rule_format, of 0 0 0] by (simp add: demo_frame_def panel_def)
  moreover have "\<not> bit (bs ! 0) 1" using bits [rule_format, of 0 0 1] by (simp add: demo_frame_def panel_def)
  moreover have "bit (bs ! 1) 2" using bits [rule_format, of 1 0 2] by (simp add: demo_frame_def panel_def)
  moreover have "bit (bs ! 1) 7" using bits [rule_format, of 1 0 7] by (simp add: demo_frame_def panel_def)
  moreover have "issued (bus par') = [Data bs]" using sent by (simp add: demo_frame_def panel_def)
  moreover have "length bs = 2" using lbs by (simp add: g)
  ultimately show ?thesis using run demo_frame_hyps by blast
qed

text \<open>The same 2x8 frame, run through the model: the bytes are 0x01 and 0x84.\<close>

lemma write_vmem_demo_frame:
  "write_vmem demo_frame 0 0
     = Inr (0, demo_frame\<lparr>txbuf := [0x01, 0x84, 0xFF],
                bus := \<lparr>issued = [Data [0x01, 0x84]], outcome = no_faults\<rparr>\<rparr>)"
  by (simp add: write_vmem_def demo_frame_def panel_def cols_loop.simps pages_loop.simps
      bits_loop.simps bus_write_def no_faults_def word_sless_alt)

text \<open>
  Claim C7. Under the same conditions, if every sample is 0 or 1, expanding
  the burst that \<^verbatim>\<open>write_vmem\<close> sends, bit \<open>i\<close> of byte \<open>x * (height / 8) + y\<close>
  to column \<open>x\<close> of row \<open>y * 8 + i\<close>, gives back the pixel buffer.
\<close>

theorem pack_expand_round_trip:
  assumes h8: "unat (yres par) mod 8 = 0"
    and len: "length (screen_buffer par) = unat (xres par) * unat (yres par)"
    and wh: "unat (xres par) * unat (yres par) < 2 ^ 32"
    and room: "unat (xres par) * unat (yres par) div 8 \<le> length (txbuf par)"
    and mono: "set (screen_buffer par) \<subseteq> {0, 1}"
  shows "\<exists>ret par' bs. write_vmem par offset len = Inr (ret, par')
           \<and> issued (bus par') = issued (bus par) @ [Data bs]
           \<and> spec_expand (unat (xres par)) (unat (yres par)) bs = screen_buffer par"
proof -
  let ?w = "unat (xres par)" and ?h = "unat (yres par)" and ?vm = "screen_buffer par"
  let ?P = "?h div 8"
  let ?n = "?w * ?h div 8"
  have split: "?n = ?w * ?P"
    using h8 by (metis div_mult_swap dvd_eq_mod_eq_0 mult.commute)
  have hP: "?h = ?P * 8" using h8 by (simp add: mod_eq_0_iff_dvd)
  obtain txb' where
    run: "write_vmem par offset len
             = Inr (outcome (bus par) (length (issued (bus par))),
                    par\<lparr>txbuf := txb',
                        bus := (bus par)\<lparr>issued := issued (bus par) @ [Data (take ?n txb')]\<rparr>\<rparr>)"
    and l: "length txb' = length (txbuf par)"
    and bits: "\<forall>x y i. x < ?w \<longrightarrow> y < ?P \<longrightarrow> i < 8 \<longrightarrow>
                (bit (txb' ! (x * ?P + y)) i \<longleftrightarrow> ?vm ! ((y * 8 + i) * ?w + x) \<noteq> 0)"
    using write_vmem_result [OF h8 len wh room, of offset len] by blast
  let ?bs = "take ?n txb'"
  have "spec_expand ?w ?h ?bs = ?vm"
  proof (rule nth_equalityI)
    show "length (spec_expand ?w ?h ?bs) = length ?vm"
      by (simp add: spec_expand_def len)
  next
    fix k assume "k < length (spec_expand ?w ?h ?bs)"
    then have k: "k < ?w * ?h" by (simp add: spec_expand_def)
    then have w0: "0 < ?w" by (cases "?w = 0") simp_all
    let ?x = "k mod ?w" and ?r = "k div ?w"
    have x: "?x < ?w" using w0 by simp
    have r: "?r < ?h" using k by (simp add: less_mult_imp_div_less mult.commute)
    have y: "?r div 8 < ?P" using r hP by (metis less_mult_imp_div_less)
    have i: "?r mod 8 < 8" by simp
    have idx: "((?r div 8) * 8 + ?r mod 8) * ?w + ?x = k" by simp
    have inb: "?x * ?P + ?r div 8 < ?n" using page_index_bound [OF x y] split by simp
    have "bit (?bs ! (?x * ?P + ?r div 8)) (?r mod 8) \<longleftrightarrow> ?vm ! k \<noteq> 0"
      using bits x y i idx inb by (metis nth_take)
    moreover have "?vm ! k \<in> set ?vm" using k len by simp
    then have "?vm ! k = 0 \<or> ?vm ! k = 1" using mono by auto
    ultimately have "(if bit (?bs ! (?x * ?P + ?r div 8)) (?r mod 8) then 1 else 0) = ?vm ! k"
      by auto
    then show "spec_expand ?w ?h ?bs ! k = ?vm ! k"
      using k by (simp add: spec_expand_def)
  qed
  then show ?thesis using run
    by (intro exI [of _ "outcome (bus par) (length (issued (bus par)))"]
        exI [of _ "par\<lparr>txbuf := txb',
                        bus := (bus par)\<lparr>issued := issued (bus par) @ [Data ?bs]\<rparr>\<rparr>"]
        exI [of _ ?bs]) simp
qed

lemma demo_mono_frame_hyps:
  "unat (yres demo_mono_frame) mod 8 = 0"
  "length (screen_buffer demo_mono_frame)
     = unat (xres demo_mono_frame) * unat (yres demo_mono_frame)"
  "unat (xres demo_mono_frame) * unat (yres demo_mono_frame) < 2 ^ 32"
  "unat (xres demo_mono_frame) * unat (yres demo_mono_frame) div 8
     \<le> length (txbuf demo_mono_frame)"
  "set (screen_buffer demo_mono_frame) \<subseteq> {0, 1}"
  by (simp_all add: demo_mono_frame_def panel_def)

text \<open>
  The hypotheses of C7 hold for a 2x8 panel of samples 0 and 1, where the
  round trip returns the sixteen samples.
\<close>

theorem pack_expand_round_trip_witness:
  "unat (yres demo_mono_frame) mod 8 = 0
   \<and> length (screen_buffer demo_mono_frame)
       = unat (xres demo_mono_frame) * unat (yres demo_mono_frame)
   \<and> unat (xres demo_mono_frame) * unat (yres demo_mono_frame) < 2 ^ 32
   \<and> unat (xres demo_mono_frame) * unat (yres demo_mono_frame) div 8
       \<le> length (txbuf demo_mono_frame)
   \<and> set (screen_buffer demo_mono_frame) \<subseteq> {0, 1}
   \<and> (\<exists>ret par' bs. write_vmem demo_mono_frame 0 0 = Inr (ret, par')
         \<and> issued (bus par') = [Data bs]
         \<and> spec_expand 2 8 bs = [1, 0,  0, 0,  0, 1,  0, 0,  0, 0,  0, 0,  0, 0,  0, 1])"
proof -
  obtain ret par' bs where run: "write_vmem demo_mono_frame 0 0 = Inr (ret, par')"
    and sent: "issued (bus par') = issued (bus demo_mono_frame) @ [Data bs]"
    and again: "spec_expand (unat (xres demo_mono_frame)) (unat (yres demo_mono_frame)) bs
                 = screen_buffer demo_mono_frame"
    using pack_expand_round_trip [OF demo_mono_frame_hyps, of 0 0] by blast
  have "issued (bus par') = [Data bs]"
    using sent by (simp add: demo_mono_frame_def panel_def)
  moreover have "spec_expand 2 8 bs = [1, 0,  0, 0,  0, 1,  0, 0,  0, 0,  0, 0,  0, 0,  0, 1]"
    using again by (simp add: demo_mono_frame_def panel_def)
  ultimately show ?thesis using run demo_mono_frame_hyps by blast
qed

end
